theory Spec2Isabelle
  imports Main
begin

section \<open>The caching connector of \<^verbatim>\<open>server/services/graph.js\<close>\<close>

text \<open>
  The second module of the source file defines \<^verbatim>\<open>BifrostCache\<close> (an in-memory store with a
  refresh tracker) and \<^verbatim>\<open>PwConnector\<close> (the connector that serves reads from it and
  refreshes stale entries in the background). Both are embedded here function by function.

  JavaScript runs the module on one thread: a generator runs without interruption up to
  its next \<^verbatim>\<open>yield\<close>. Each uninterrupted stretch of code is one HOL function from state to
  state; the value of \<^verbatim>\<open>Date.now()\<close> read in that stretch is a parameter \<open>now\<close>
  (milliseconds, an integer).
\<close>

subsection \<open>Data\<close>

type_synonym url = string

text \<open>
  The connector asks for the full response (\<^verbatim>\<open>resolveWithFullResponse: true\<close>), and the
  cache stores that object; only its \<^verbatim>\<open>body\<close> is ever read.
\<close>

record 'b response =
  statusCode :: nat
  headers :: "(string \<times> string) list"
  body :: 'b

text \<open>The object \<^verbatim>\<open>{ts, val}\<close> that \<^verbatim>\<open>add\<close> stores in \<^verbatim>\<open>_backend\<close>.\<close>

record 'b cachedItem =
  ts :: int
  val :: "'b response"

text \<open>The two \<^verbatim>\<open>Map\<close>s of a \<^verbatim>\<open>BifrostCache\<close>.\<close>

record 'b BifrostCache =
  backend :: "url \<rightharpoonup> 'b cachedItem"
  processMap :: "url \<rightharpoonup> bool"

text \<open>\<^verbatim>\<open>this._CACHE_LIFETIME = 30 * 60 * 1000\<close>, set once in the constructor.\<close>

definition CACHE_LIFETIME :: int where
  "CACHE_LIFETIME = 30 * 60 * 1000"

text \<open>The cache the constructor builds: both maps empty.\<close>

definition newBifrostCache :: "'b BifrostCache" where
  "newBifrostCache = \<lparr>backend = Map.empty, processMap = Map.empty\<rparr>"

subsection \<open>\<^verbatim>\<open>BifrostCache\<close>\<close>

text \<open>
  \<^verbatim>\<open>get(key)\<close>: \<^verbatim>\<open>null\<close> is \<open>None\<close>; the object \<^verbatim>\<open>{val, requireRefresh}\<close> is the pair.
  Every stored item is an object, so \<^verbatim>\<open>!cachedItem\<close> holds exactly when the key is not in
  the map.
\<close>

definition BifrostCache_get :: "int \<Rightarrow> url \<Rightarrow> 'b BifrostCache \<Rightarrow> ('b response \<times> bool) option" where
  "BifrostCache_get now key c =
     (case backend c key of
        None \<Rightarrow> None
      | Some cachedItem \<Rightarrow>
          (let requireRefresh = (if now - ts cachedItem > CACHE_LIFETIME then True else False)
           in Some (val cachedItem, requireRefresh)))"

definition isBeingRefreshed :: "url \<Rightarrow> 'b BifrostCache \<Rightarrow> bool" where
  "isBeingRefreshed key c = (processMap c key \<noteq> None)"

definition markBeingRefreshed :: "url \<Rightarrow> bool \<Rightarrow> 'b BifrostCache \<Rightarrow> 'b BifrostCache" where
  "markBeingRefreshed key flag c =
     (if \<not> flag then c\<lparr>processMap := (processMap c)(key := None)\<rparr>
      else c\<lparr>processMap := (processMap c)(key \<mapsto> True)\<rparr>)"

definition add :: "int \<Rightarrow> url \<Rightarrow> 'b response \<Rightarrow> 'b BifrostCache \<Rightarrow> 'b BifrostCache" where
  "add now key v c = c\<lparr>backend := (backend c)(key \<mapsto> \<lparr>ts = now, val = v\<rparr>)\<rparr>"

subsection \<open>The event loop around the connector\<close>

text \<open>
  A request of \<^verbatim>\<open>request-promise\<close> either resolves with the full response or rejects
  with an error.
\<close>

datatype error = RequestError string | StatusCodeError nat

text \<open>
  \<^verbatim>\<open>_fetchRefreshedCacheItem\<close> is entered from two coroutines, and suspends each of them at
  \<^verbatim>\<open>yield this._fetchUrl(url)\<close>: \<^verbatim>\<open>_loadUrl\<close> (through \<^verbatim>\<open>_getCacheIfNeeded\<close>), whose caller
  waits for the result, and \<^verbatim>\<open>_markAndRefreshItemAsync\<close>, whose promise nobody holds.
\<close>

datatype continuation = LoadUrl | MarkAndRefreshItemAsync

text \<open>
  What the coroutines share: the module-level \<^verbatim>\<open>sharedBifrostCache\<close>, the callbacks handed
  to \<^verbatim>\<open>process.nextTick\<close> and not yet run (oldest first; each is
  \<^verbatim>\<open>() => this._markAndRefreshItemAsync(url)\<close>, so its url identifies it), and the requests
  sent by \<^verbatim>\<open>_fetchUrl\<close> that have not settled yet, each with the coroutine suspended on it.
\<close>

record 'b world =
  cache :: "'b BifrostCache"
  nextTickQueue :: "url list"
  requests :: "(url \<times> continuation) list"

definition init :: "'b world" where
  "init = \<lparr>cache = newBifrostCache, nextTickQueue = [], requests = []\<rparr>"

text \<open>What a coroutine has done when control leaves it.\<close>

datatype 'a outcome = Returned 'a | Threw error | Suspended

text \<open>\<^verbatim>\<open>_fetchUrl(url)\<close> sends the request; the coroutine \<open>k\<close> then yields on its promise.\<close>

definition fetchUrl :: "url \<Rightarrow> continuation \<Rightarrow> 'b world \<Rightarrow> 'b world" where
  "fetchUrl url k w = w\<lparr>requests := requests w @ [(url, k)]\<rparr>"

text \<open>
  \<^verbatim>\<open>_fetchRefreshedCacheItem\<close> after its \<^verbatim>\<open>yield\<close>: a rejection is thrown at the \<^verbatim>\<open>yield\<close> and
  leaves the generator; a response is added to the cache and returned.
\<close>

definition fetchRefreshedCacheItem_resume ::
  "int \<Rightarrow> url \<Rightarrow> error + 'b response \<Rightarrow> 'b BifrostCache \<Rightarrow> (error + 'b response) \<times> 'b BifrostCache" where
  "fetchRefreshedCacheItem_resume now url result c =
     (case result of
        Inl err \<Rightarrow> (Inl err, c)
      | Inr response \<Rightarrow> (Inr response, add now url response c))"

text \<open>
  \<^verbatim>\<open>_unwindMarkAndRefreshItem\<close>: mark the key, then hand the refresh to \<^verbatim>\<open>process.nextTick\<close>.
\<close>

definition unwindMarkAndRefreshItem :: "url \<Rightarrow> 'b world \<Rightarrow> 'b world" where
  "unwindMarkAndRefreshItem url w =
     (let w1 = w\<lparr>cache := markBeingRefreshed url True (cache w)\<rparr>
      in w1\<lparr>nextTickQueue := nextTickQueue w1 @ [url]\<rparr>)"

text \<open>\<^verbatim>\<open>_getCacheIfNeeded\<close> from its start to its return or to the \<^verbatim>\<open>yield\<close> of the fetch.\<close>

definition getCacheIfNeeded :: "int \<Rightarrow> url \<Rightarrow> 'b world \<Rightarrow> 'b outcome \<times> 'b world" where
  "getCacheIfNeeded now url w =
     (case BifrostCache_get now url (cache w) of
        None \<Rightarrow> (Suspended, fetchUrl url LoadUrl w)
      | Some (v, requireRefresh) \<Rightarrow>
          (let w1 = (if requireRefresh \<and> \<not> isBeingRefreshed url (cache w)
                     then unwindMarkAndRefreshItem url w else w)
           in (Returned (body v), w1)))"

text \<open>\<^verbatim>\<open>_getCacheIfNeeded\<close> on the miss path, once the request has settled.\<close>

definition getCacheIfNeeded_resume ::
  "int \<Rightarrow> url \<Rightarrow> error + 'b response \<Rightarrow> 'b world \<Rightarrow> 'b outcome \<times> 'b world" where
  "getCacheIfNeeded_resume now url result w =
     (case fetchRefreshedCacheItem_resume now url result (cache w) of
        (Inl err, c) \<Rightarrow> (Threw err, w\<lparr>cache := c\<rparr>)
      | (Inr res, c) \<Rightarrow> (Returned (body res), w\<lparr>cache := c\<rparr>))"

text \<open>
  \<^verbatim>\<open>_loadUrl\<close> wraps \<^verbatim>\<open>_getCacheIfNeeded\<close> in a \<^verbatim>\<open>try\<close> whose \<^verbatim>\<open>catch\<close> logs and throws the
  error again. \<^verbatim>\<open>Promise.coroutine\<close> runs the generator at once, up to its first \<^verbatim>\<open>yield\<close>.
\<close>

definition loadUrl :: "int \<Rightarrow> url \<Rightarrow> 'b world \<Rightarrow> 'b outcome \<times> 'b world" where
  "loadUrl now url w =
     (case getCacheIfNeeded now url w of
        (Threw err, w1) \<Rightarrow> (Threw err, w1)
      | r \<Rightarrow> r)"

definition loadUrl_resume ::
  "int \<Rightarrow> url \<Rightarrow> error + 'b response \<Rightarrow> 'b world \<Rightarrow> 'b outcome \<times> 'b world" where
  "loadUrl_resume now url result w =
     (case getCacheIfNeeded_resume now url result w of
        (Threw err, w1) \<Rightarrow> (Threw err, w1)
      | r \<Rightarrow> r)"

text \<open>
  \<^verbatim>\<open>_markAndRefreshItemAsync\<close>: up to the \<^verbatim>\<open>yield\<close> inside \<^verbatim>\<open>_fetchRefreshedCacheItem\<close>, and
  from there on. There is no \<^verbatim>\<open>try\<close>: a rejection leaves the coroutine before
  \<^verbatim>\<open>markBeingRefreshed(url, false)\<close>.
\<close>

definition markAndRefreshItemAsync :: "url \<Rightarrow> 'b world \<Rightarrow> 'b world" where
  "markAndRefreshItemAsync url w = fetchUrl url MarkAndRefreshItemAsync w"

definition markAndRefreshItemAsync_resume ::
  "int \<Rightarrow> url \<Rightarrow> error + 'b response \<Rightarrow> 'b world \<Rightarrow> unit outcome \<times> 'b world" where
  "markAndRefreshItemAsync_resume now url result w =
     (case fetchRefreshedCacheItem_resume now url result (cache w) of
        (Inl err, c) \<Rightarrow> (Threw err, w\<lparr>cache := c\<rparr>)
      | (Inr res, c) \<Rightarrow> (Returned (), w\<lparr>cache := markBeingRefreshed url False c\<rparr>))"

text \<open>
  One turn of the event loop: the loader's batch function \<^verbatim>\<open>fetch\<close> calls \<^verbatim>\<open>_loadUrl(url)\<close>;
  the oldest \<^verbatim>\<open>nextTick\<close> callback runs; or the request at position \<open>i\<close> settles and the
  coroutine suspended on it goes on. A turn that is not possible in the state (no
  callback queued, no such request) changes nothing.
\<close>

datatype 'b event = Load int url | Tick | Settle int nat "error + 'b response"

fun step :: "'b event \<Rightarrow> 'b world \<Rightarrow> 'b world" where
  "step (Load now url) w = snd (loadUrl now url w)"
| "step Tick w =
     (case nextTickQueue w of
        [] \<Rightarrow> w
      | url # rest \<Rightarrow> markAndRefreshItemAsync url (w\<lparr>nextTickQueue := rest\<rparr>))"
| "step (Settle now i result) w =
     (if i < length (requests w) then
        (case requests w ! i of
           (url, k) \<Rightarrow>
             (let w1 = w\<lparr>requests := take i (requests w) @ drop (Suc i) (requests w)\<rparr>
              in case k of
                   LoadUrl \<Rightarrow> snd (loadUrl_resume now url result w1)
                 | MarkAndRefreshItemAsync \<Rightarrow> snd (markAndRefreshItemAsync_resume now url result w1)))
      else w)"

fun run :: "'b event list \<Rightarrow> 'b world \<Rightarrow> 'b world" where
  "run [] w = w"
| "run (e # es) w = run es (step e w)"

text \<open>
  The refreshes of a key that are under way: callbacks still queued by \<^verbatim>\<open>process.nextTick\<close>
  plus requests on which \<^verbatim>\<open>_markAndRefreshItemAsync\<close> is suspended.
\<close>

definition outstanding :: "url \<Rightarrow> 'b world \<Rightarrow> nat" where
  "outstanding key w =
     count_list (nextTickQueue w) key + count_list (requests w) (key, MarkAndRefreshItemAsync)"

text \<open>
  The marker of a key counts one when it is in \<^verbatim>\<open>_processMap\<close>. A \<^verbatim>\<open>Map\<close> holds a key at
  most once.
\<close>

definition slot :: "url \<Rightarrow> 'b world \<Rightarrow> nat" where
  "slot key w = (if isBeingRefreshed key (cache w) then 1 else 0)"

text \<open>An event completes the refresh of a key when it settles a request of that refresh.\<close>

fun completes :: "url \<Rightarrow> 'b event \<Rightarrow> 'b world \<Rightarrow> bool" where
  "completes key (Settle now i result) w =
     (i < length (requests w) \<and> requests w ! i = (key, MarkAndRefreshItemAsync))"
| "completes key (Load now url) w = False"
| "completes key Tick w = False"

text \<open>No event of the list, run from \<open>w\<close>, completes the refresh of the key.\<close>

fun refreshPending :: "url \<Rightarrow> 'b event list \<Rightarrow> 'b world \<Rightarrow> bool" where
  "refreshPending key [] w = True"
| "refreshPending key (e # es) w = (\<not> completes key e w \<and> refreshPending key es (step e w))"

subsection \<open>The cache key: \<^verbatim>\<open>PwConnector.get\<close> up to the call of the loader\<close>

text \<open>
  A parameter object is the list of its own properties in enumeration order, which for
  string keys is their insertion order. The caller and \<^verbatim>\<open>get\<close> hold the same object, so
  objects live in a store and are passed by reference.
\<close>

type_synonym object = "(string \<times> string) list"

type_synonym ref = nat

type_synonym store = "ref \<rightharpoonup> object"

definition ROOT_URL :: string where
  "ROOT_URL = ''https://psychonautwiki.org/w/api.php''"

definition qsDefaults :: object where
  "qsDefaults = [(''action'', ''ask''), (''format'', ''json'')]"

text \<open>
  \<^verbatim>\<open>_.defaults(object, source)\<close> of lodash: each property of the source whose key resolves
  to \<^verbatim>\<open>undefined\<close> in the object is assigned to the object itself, which is returned. A
  new property comes last in the enumeration order.
\<close>

fun defaults :: "object \<Rightarrow> object \<Rightarrow> object" where
  "defaults obj [] = obj"
| "defaults obj ((key, v) # source) =
     defaults (if map_of obj key = None then obj @ [(key, v)] else obj) source"

text \<open>
  \<^verbatim>\<open>querystring.encode\<close> of Node, on string values: the properties in enumeration
  order, each as \<^verbatim>\<open>escape(key)=escape(value)\<close>, joined by \<^verbatim>\<open>&\<close>. \<^verbatim>\<open>querystring.escape\<close> keeps
  letters, digits and \<^verbatim>\<open>-_.!~*'()\<close> and writes any other byte of the UTF-8 text as \<^verbatim>\<open>%XX\<close>.
\<close>

definition noEscape :: "char \<Rightarrow> bool" where
  "noEscape c =
     (c \<in> set ''ABCDEFGHIJKLMNOPQRSTUVWXYZabcdefghijklmnopqrstuvwxyz0123456789-_.!~*'()'')"

definition hexDigit :: "nat \<Rightarrow> char" where
  "hexDigit n = ''0123456789ABCDEF'' ! (n mod 16)"

definition escapeChar :: "char \<Rightarrow> string" where
  "escapeChar c =
     (if noEscape c then [c]
      else [CHR ''%'', hexDigit (of_char c div 16), hexDigit (of_char c mod 16)])"

definition qsEscape :: "string \<Rightarrow> string" where
  "qsEscape s = concat (map escapeChar s)"

fun join :: "string \<Rightarrow> string list \<Rightarrow> string" where
  "join sep [] = []"
| "join sep [x] = x"
| "join sep (x # y # ys) = x @ sep @ join sep (y # ys)"

definition encode :: "object \<Rightarrow> string" where
  "encode obj = join ''&'' (map (\<lambda>(k, v). qsEscape k @ ''='' @ qsEscape v) obj)"

text \<open>
  The first statement of \<^verbatim>\<open>get(args)\<close> and the template string of the second: the url
  handed to \<^verbatim>\<open>this._loader.load\<close>, and the store after \<^verbatim>\<open>_.defaults\<close> has written into the
  object behind \<^verbatim>\<open>args\<close>. A reference to no object does not occur in a call.
\<close>

definition get_url :: "ref \<Rightarrow> store \<Rightarrow> (url \<times> store) option" where
  "get_url args h =
     (case h args of
        None \<Rightarrow> None
      | Some obj \<Rightarrow>
          (let merged = defaults obj qsDefaults;
               h1 = h(args \<mapsto> merged);
               params = encode merged
           in Some (ROOT_URL @ ''?'' @ params, h1)))"

subsection \<open>The loader between \<^verbatim>\<open>get\<close> and \<^verbatim>\<open>_loadUrl\<close>\<close>

text \<open>
  The constructor builds \<^verbatim>\<open>new DataLoader(this.fetch.bind(this), {batch: true})\<close>, one
  loader per connector. \<^verbatim>\<open>DataLoader\<close> comes from the \<^verbatim>\<open>dataloader\<close> package, which is not in
  the repository; the definitions of this subsection follow the behaviour that package
  documents for the options given here, where the memoization cache is left at its
  default, on:
  \<^item> \<^verbatim>\<open>load(key)\<close> returns the promise it has cached for the key, if any; otherwise it
    makes a new promise, queues the key for the next dispatch and caches the promise;
  \<^item> the dispatch takes the queue, calls the batch function once with its keys and
    settles each promise from the result; when the batch function's promise rejects,
    every key of the batch is cleared from the cache and its promise rejected.
  A promise is its position in \<^verbatim>\<open>promises\<close>; \<open>None\<close> there means it is pending.
\<close>

record 'b loader =
  promiseCache :: "url \<rightharpoonup> nat"
  queue :: "(url \<times> nat) list"
  promises :: "(error + 'b) option list"

definition newLoader :: "'b loader" where
  "newLoader = \<lparr>promiseCache = Map.empty, queue = [], promises = []\<rparr>"

definition load :: "url \<Rightarrow> 'b loader \<Rightarrow> nat \<times> 'b loader" where
  "load key l =
     (case promiseCache l key of
        Some p \<Rightarrow> (p, l)
      | None \<Rightarrow>
          (let p = length (promises l)
           in (p, l\<lparr>promiseCache := (promiseCache l)(key \<mapsto> p),
                    queue := queue l @ [(key, p)],
                    promises := promises l @ [None]\<rparr>)))"

text \<open>
  \<^verbatim>\<open>fetch(urls)\<close>: \<^verbatim>\<open>urls.map(url => this._loadUrl(url))\<close> runs every \<^verbatim>\<open>_loadUrl\<close> up to its
  return or first \<^verbatim>\<open>yield\<close>, one after the other in the same turn (one clock reading stands
  for the turn); \<^verbatim>\<open>Promise.all\<close> then waits for those that are suspended.
\<close>

fun fetch :: "int \<Rightarrow> url list \<Rightarrow> 'b world \<Rightarrow> 'b outcome list \<times> 'b world" where
  "fetch now [] w = ([], w)"
| "fetch now (url # urls) w =
     (case loadUrl now url w of
        (r, w1) \<Rightarrow> (case fetch now urls w1 of (rs, w2) \<Rightarrow> (r # rs, w2)))"

text \<open>The dispatch: the batch taken from the queue, and what \<^verbatim>\<open>fetch\<close> did with its keys.\<close>

definition dispatchQueue ::
  "int \<Rightarrow> 'b loader \<Rightarrow> 'b world \<Rightarrow> (url \<times> nat) list \<times> 'b outcome list \<times> 'b loader \<times> 'b world" where
  "dispatchQueue now l w =
     (let batch = queue l;
          l1 = l\<lparr>queue := []\<rparr>
      in case fetch now (map fst batch) w of (rs, w1) \<Rightarrow> (batch, rs, l1, w1))"

text \<open>The promise of \<^verbatim>\<open>fetch\<close> resolved with one value per key of the batch.\<close>

fun resolveBatch :: "(url \<times> nat) list \<Rightarrow> 'b list \<Rightarrow> 'b loader \<Rightarrow> 'b loader" where
  "resolveBatch ((key, p) # batch) (v # vs) l =
     resolveBatch batch vs (l\<lparr>promises := (promises l)[p := Some (Inr v)]\<rparr>)"
| "resolveBatch batch vs l = l"

text \<open>The promise of \<^verbatim>\<open>fetch\<close> rejected.\<close>

fun failedDispatch :: "(url \<times> nat) list \<Rightarrow> error \<Rightarrow> 'b loader \<Rightarrow> 'b loader" where
  "failedDispatch [] err l = l"
| "failedDispatch ((key, p) # batch) err l =
     failedDispatch batch err
       (l\<lparr>promiseCache := (promiseCache l)(key := None),
          promises := (promises l)[p := Some (Inl err)]\<rparr>)"

text \<open>
  \<^verbatim>\<open>get(args)\<close> up to its \<^verbatim>\<open>yield\<close>: the promise it waits for, the store and the loader.
\<close>

definition PwConnector_get :: "ref \<Rightarrow> store \<Rightarrow> 'b loader \<Rightarrow> (nat \<times> store \<times> 'b loader) option" where
  "PwConnector_get args h l =
     (case get_url args h of
        None \<Rightarrow> None
      | Some (url, h1) \<Rightarrow> (case load url l of (p, l1) \<Rightarrow> Some (p, h1, l1)))"







subsection \<open>A scenario\<close>

text \<open>
  One key, \<^verbatim>\<open>A\<close>, whose first fetch returns the body \<^verbatim>\<open>{x:1}\<close> and whose refresh returns
  \<^verbatim>\<open>{x:2}\<close>; times are given in minutes and read in milliseconds.
\<close>

definition minutes :: "int \<Rightarrow> int" where
  "minutes n = n * 60 * 1000"

definition response1 :: "string response" where
  "response1 = \<lparr>statusCode = 200, headers = [], body = ''{x:1}''\<rparr>"

definition response2 :: "string response" where
  "response2 = \<lparr>statusCode = 200, headers = [], body = ''{x:2}''\<rparr>"

text \<open>The cache after \<^verbatim>\<open>A\<close> was missed and fetched at time 0, nothing else under way.\<close>

definition cachedA :: "string world" where
  "cachedA = run [Load 0 ''A'', Settle 0 0 (Inr response1)] init"

text \<open>The same cache after a read of \<^verbatim>\<open>A\<close> at minute 40 found the entry stale.\<close>

definition refreshingA :: "string world" where
  "refreshingA = step (Load (minutes 40) ''A'') cachedA"

text \<open>
  The loader of the connector whose \<^verbatim>\<open>load\<close> of \<^verbatim>\<open>A\<close> caused that first fetch, after the
  fetch has resolved and the promise with it.
\<close>

definition loaderA :: "string loader" where
  "loaderA =
     (case dispatchQueue 0 (snd (load ''A'' newLoader)) init of
        (batch, rs, l, w) \<Rightarrow> resolveBatch batch [body response1] l)"

text \<open>A parameter object with one property, at reference 0, and the url \<^verbatim>\<open>get\<close> makes of it.\<close>

definition askLSD :: store where
  "askLSD = [0 \<mapsto> [(''query'', ''LSD'')]]"

definition urlLSD :: url where
  "urlLSD = ''https://psychonautwiki.org/w/api.php?query=LSD&action=ask&format=json''"

text \<open>
  The store after \<^verbatim>\<open>get\<close> has merged the defaults into that object, the loader of a new
  connector after that \<^verbatim>\<open>get\<close>, and a cache that holds the url, fetched at time 0.
\<close>

definition mergedLSD :: store where
  "mergedLSD = [0 \<mapsto> [(''query'', ''LSD''), (''action'', ''ask''), (''format'', ''json'')]]"







section \<open>Properties\<close>

lemmas connector_defs = loadUrl_def getCacheIfNeeded_def BifrostCache_get_def isBeingRefreshed_def
  unwindMarkAndRefreshItem_def markBeingRefreshed_def fetchUrl_def Let_def
  loadUrl_resume_def getCacheIfNeeded_resume_def fetchRefreshedCacheItem_resume_def
  markAndRefreshItemAsync_def markAndRefreshItemAsync_resume_def add_def

subsection \<open>The scenario, evaluated\<close>

lemma cachedA_eq:
  "cachedA = \<lparr>cache = \<lparr>backend = [''A'' \<mapsto> \<lparr>ts = 0, val = response1\<rparr>], processMap = Map.empty\<rparr>,
              nextTickQueue = [], requests = []\<rparr>"
  by (simp add: cachedA_def init_def newBifrostCache_def connector_defs)

lemma refreshingA_eq:
  "refreshingA =
     \<lparr>cache = \<lparr>backend = [''A'' \<mapsto> \<lparr>ts = 0, val = response1\<rparr>], processMap = [''A'' \<mapsto> True]\<rparr>,
      nextTickQueue = [''A''], requests = []\<rparr>"
  by (simp add: refreshingA_def cachedA_eq connector_defs minutes_def CACHE_LIFETIME_def)

subsection \<open>The cache\<close>

text \<open>
  C7. \<^verbatim>\<open>BifrostCache.get\<close> returns \<^verbatim>\<open>null\<close> exactly for a key that is not in \<^verbatim>\<open>_backend\<close>, and
  for a stored item it returns the value with \<^verbatim>\<open>requireRefresh\<close> true exactly when
  \<open>now - ts\<close> is more than 1,800,000 ms: an item read exactly 30 minutes after \<^verbatim>\<open>add\<close> is
  fresh, one read a millisecond later is stale. A key is in \<^verbatim>\<open>_backend\<close> once \<^verbatim>\<open>add\<close> has
  stored it: the new cache holds none, \<^verbatim>\<open>add\<close> adds its key, and nothing removes one.
\<close>

theorem cache_get_ttl:
  "(BifrostCache_get now key c = None \<longleftrightarrow> backend c key = None)
   \<and> (backend c key = Some item \<longrightarrow>
        BifrostCache_get now key c = Some (val item, now - ts item > 1800000))
   \<and> BifrostCache_get (t + 1800000) key (add t key v c) = Some (v, False)
   \<and> BifrostCache_get (t + 1800001) key (add t key v c) = Some (v, True)
   \<and> BifrostCache_get now key newBifrostCache = None
   \<and> dom (backend (add t key' v c)) = insert key' (dom (backend c))
   \<and> dom (backend (markBeingRefreshed key' flag c)) = dom (backend c)"
  by (auto simp: BifrostCache_get_def add_def CACHE_LIFETIME_def newBifrostCache_def
      markBeingRefreshed_def split: option.splits)

theorem cache_get_ttl_witness:
  "backend (cache cachedA) ''A'' = Some \<lparr>ts = 0, val = response1\<rparr>
   \<and> BifrostCache_get (minutes 30 + 1) ''A'' (cache cachedA) = Some (response1, True)
   \<and> BifrostCache_get (minutes 30) ''A'' (add 0 ''A'' response1 newBifrostCache) = Some (response1, False)
   \<and> BifrostCache_get (minutes 30 + 1) ''A'' (add 0 ''A'' response1 newBifrostCache) = Some (response1, True)"
  using cache_get_ttl[where now = "minutes 30 + 1" and key = "''A''" and c = "cache cachedA"
      and item = "\<lparr>ts = 0, val = response1\<rparr>" and t = 0 and v = response1 and key' = "''A''"
      and flag = True]
    cache_get_ttl[where now = "minutes 30 + 1" and key = "''A''" and c = "newBifrostCache"
      and item = "\<lparr>ts = 0, val = response1\<rparr>" and t = 0 and v = response1 and key' = "''A''"
      and flag = True]
  by (auto simp: cachedA_eq minutes_def)

subsection \<open>One call of \<^verbatim>\<open>_loadUrl\<close>\<close>






subsection \<open>A background refresh that fails\<close>

text \<open>
  C1. The claim is that the marker of a key is removed when its refresh completes, also
  when the fetch fails. Evaluated on the scenario: \<^verbatim>\<open>A\<close> is read stale at minute 40, the
  queued refresh runs, and its request rejects. The rejection leaves
  \<^verbatim>\<open>_markAndRefreshItemAsync\<close> at the \<^verbatim>\<open>yield\<close>, before \<^verbatim>\<open>markBeingRefreshed(url, false)\<close>:
  the entry is still stale at minute 41, the key is still marked, no refresh is under way,
  and the read at minute 41 returns the old body and schedules nothing.
\<close>

theorem refresh_failure_keeps_flag:
  "BifrostCache_get (minutes 41) ''A''
      (cache (run [Load (minutes 40) ''A'', Tick, Settle (minutes 40) 0 (Inl (StatusCodeError 503))] cachedA))
     = Some (response1, True)
   \<and> isBeingRefreshed ''A''
      (cache (run [Load (minutes 40) ''A'', Tick, Settle (minutes 40) 0 (Inl (StatusCodeError 503))] cachedA))
   \<and> outstanding ''A''
      (run [Load (minutes 40) ''A'', Tick, Settle (minutes 40) 0 (Inl (StatusCodeError 503))] cachedA) = 0
   \<and> loadUrl (minutes 41) ''A''
      (run [Load (minutes 40) ''A'', Tick, Settle (minutes 40) 0 (Inl (StatusCodeError 503))] cachedA)
     = (Returned ''{x:1}'',
        run [Load (minutes 40) ''A'', Tick, Settle (minutes 40) 0 (Inl (StatusCodeError 503))] cachedA)"
proof -
  have w: "run [Load (minutes 40) ''A'', Tick, Settle (minutes 40) 0 (Inl (StatusCodeError 503))] cachedA
      = \<lparr>cache = \<lparr>backend = [''A'' \<mapsto> \<lparr>ts = 0, val = response1\<rparr>], processMap = [''A'' \<mapsto> True]\<rparr>,
         nextTickQueue = [], requests = []\<rparr>"
    by (simp add: cachedA_eq connector_defs minutes_def CACHE_LIFETIME_def)
  show ?thesis
    unfolding w
    by (simp add: connector_defs minutes_def CACHE_LIFETIME_def outstanding_def response1_def)
qed

subsection \<open>Single flight\<close>

text \<open>What one turn of the event loop can do to the shared state.\<close>

lemma count_list_remove_nth:
  assumes "i < length xs"
  shows "count_list (take i xs @ drop (Suc i) xs) x + (if xs ! i = x then 1 else 0) = count_list xs x"
proof -
  have "xs = take i xs @ xs ! i # drop (Suc i) xs"
    using assms by (rule id_take_nth_drop)
  then have "count_list xs x = count_list (take i xs @ xs ! i # drop (Suc i) xs) x"
    by simp
  then show ?thesis by simp
qed

lemma load_cases:
  "snd (loadUrl now url w) = w \<and> (backend (cache w) url \<noteq> None)
   \<or> snd (loadUrl now url w) = fetchUrl url LoadUrl w \<and> backend (cache w) url = None
   \<or> snd (loadUrl now url w) = unwindMarkAndRefreshItem url w \<and> \<not> isBeingRefreshed url (cache w) \<and> backend (cache w) url \<noteq> None"
  by (auto simp: loadUrl_def getCacheIfNeeded_def BifrostCache_get_def Let_def split: option.splits)


lemma refresh_bound_load:
  assumes "outstanding k w \<le> slot k w"
  shows "outstanding k (step (Load now url) w) \<le> slot k (step (Load now url) w)"
  using load_cases[of now url w] assms
  by (auto simp: slot_def outstanding_def fetchUrl_def unwindMarkAndRefreshItem_def
      isBeingRefreshed_def markBeingRefreshed_def Let_def split: if_splits)

lemma refresh_bound_tick:
  assumes "outstanding k w \<le> slot k w"
  shows "outstanding k (step Tick w) \<le> slot k (step Tick w)"
  using assms
  by (auto simp: slot_def outstanding_def fetchUrl_def markAndRefreshItemAsync_def
      split: list.splits if_splits)

lemma settle_cases:
  assumes "i < length (requests w)" and "requests w ! i = (url, c)"
  shows "cache (step (Settle now i r) w) = cache w
         \<and> requests (step (Settle now i r) w) = take i (requests w) @ drop (Suc i) (requests w)
         \<and> nextTickQueue (step (Settle now i r) w) = nextTickQueue w
       \<or> (\<exists>t v. cache (step (Settle now i r) w) = add t url v (cache w)) \<and> c = LoadUrl
         \<and> requests (step (Settle now i r) w) = take i (requests w) @ drop (Suc i) (requests w)
         \<and> nextTickQueue (step (Settle now i r) w) = nextTickQueue w
       \<or> (\<exists>t v. cache (step (Settle now i r) w) = markBeingRefreshed url False (add t url v (cache w)))
         \<and> c = MarkAndRefreshItemAsync
         \<and> requests (step (Settle now i r) w) = take i (requests w) @ drop (Suc i) (requests w)
         \<and> nextTickQueue (step (Settle now i r) w) = nextTickQueue w"
  using assms
  by (cases c; cases r) (auto simp: connector_defs)

lemma refresh_bound_settle:
  assumes "outstanding k w \<le> slot k w"
  shows "outstanding k (step (Settle now i r) w) \<le> slot k (step (Settle now i r) w)"
proof (cases "i < length (requests w)")
  case False
  then show ?thesis using assms by simp
next
  case True
  obtain url c where rq: "requests w ! i = (url, c)" by (cases "requests w ! i")
  note rm = count_list_remove_nth[OF True, of "(k, MarkAndRefreshItemAsync)"]
  show ?thesis
    using settle_cases[OF True rq, of now r] assms rm rq
    by (auto simp: slot_def outstanding_def isBeingRefreshed_def markBeingRefreshed_def add_def
        split: if_splits)
qed

lemma refresh_bound_step:
  "outstanding k w \<le> slot k w \<Longrightarrow> outstanding k (step e w) \<le> slot k (step e w)"
  by (cases e) (simp_all only: refresh_bound_load refresh_bound_tick refresh_bound_settle)

lemma refresh_bound_run:
  "outstanding k w \<le> slot k w \<Longrightarrow> outstanding k (run es w) \<le> slot k (run es w)"
  by (induction es arbitrary: w) (simp_all add: refresh_bound_step)

lemma refresh_bound_init: "outstanding k init \<le> slot k init"
  by (simp add: outstanding_def init_def)


lemma flag_kept_step:
  assumes "isBeingRefreshed k (cache w)" and "\<not> completes k e w"
  shows "isBeingRefreshed k (cache (step e w))"
proof (cases e)
  case (Load now url)
  then show ?thesis using assms load_cases[of now url w]
    by (auto simp: fetchUrl_def unwindMarkAndRefreshItem_def isBeingRefreshed_def
        markBeingRefreshed_def Let_def)
next
  case Tick
  then show ?thesis using assms
    by (auto simp: fetchUrl_def markAndRefreshItemAsync_def split: list.splits)
next
  case (Settle now i r)
  show ?thesis
  proof (cases "i < length (requests w)")
    case False
    then show ?thesis using assms Settle by simp
  next
    case True
    obtain url c where rq: "requests w ! i = (url, c)" by (cases "requests w ! i")
    show ?thesis
      using settle_cases[OF True rq, of now r] assms rq True unfolding Settle
      by (auto simp: isBeingRefreshed_def markBeingRefreshed_def add_def)
  qed
qed

lemma outstanding_mono_step:
  assumes "\<not> completes k e w"
  shows "outstanding k w \<le> outstanding k (step e w)"
proof (cases e)
  case (Load now url)
  then show ?thesis using load_cases[of now url w]
    by (auto simp: outstanding_def fetchUrl_def unwindMarkAndRefreshItem_def Let_def)
next
  case Tick
  then show ?thesis
    by (auto simp: outstanding_def fetchUrl_def markAndRefreshItemAsync_def split: list.splits)
next
  case (Settle now i r)
  show ?thesis
  proof (cases "i < length (requests w)")
    case False
    then show ?thesis using Settle by simp
  next
    case True
    obtain url c where rq: "requests w ! i = (url, c)" by (cases "requests w ! i")
    note rm = count_list_remove_nth[OF True, of "(k, MarkAndRefreshItemAsync)"]
    show ?thesis
      using settle_cases[OF True rq, of now r] assms rq True rm unfolding Settle
      by (auto simp: outstanding_def split: if_splits)
  qed
qed

lemma backend_kept_step:
  assumes "backend (cache w) k \<noteq> None"
  shows "backend (cache (step e w)) k \<noteq> None"
proof (cases e)
  case (Load now url)
  then show ?thesis using assms load_cases[of now url w]
    by (auto simp: fetchUrl_def unwindMarkAndRefreshItem_def markBeingRefreshed_def Let_def)
next
  case Tick
  then show ?thesis using assms
    by (auto simp: fetchUrl_def markAndRefreshItemAsync_def split: list.splits)
next
  case (Settle now i r)
  show ?thesis
  proof (cases "i < length (requests w)")
    case False
    then show ?thesis using assms Settle by simp
  next
    case True
    obtain url c where rq: "requests w ! i = (url, c)" by (cases "requests w ! i")
    show ?thesis
      using settle_cases[OF True rq, of now r] assms unfolding Settle
      by (auto simp: markBeingRefreshed_def add_def)
  qed
qed

lemma pending_run:
  assumes "refreshPending k es w" and "isBeingRefreshed k (cache w)" and "backend (cache w) k \<noteq> None"
  shows "isBeingRefreshed k (cache (run es w)) \<and> outstanding k w \<le> outstanding k (run es w)
         \<and> backend (cache (run es w)) k \<noteq> None"
  using assms
proof (induction es arbitrary: w)
  case Nil
  then show ?case by simp
next
  case (Cons e es)
  have nc: "\<not> completes k e w" and rest: "refreshPending k es (step e w)"
    using Cons.prems(1) by simp_all
  have f: "isBeingRefreshed k (cache (step e w))"
    using Cons.prems(2) nc by (rule flag_kept_step)
  have b: "backend (cache (step e w)) k \<noteq> None"
    using Cons.prems(3) by (rule backend_kept_step)
  have m: "outstanding k w \<le> outstanding k (step e w)"
    using nc by (rule outstanding_mono_step)
  from Cons.IH[OF rest f b] m show ?case by simp
qed

lemma marked_hit_unchanged:
  assumes "isBeingRefreshed k (cache w)" and "backend (cache w) k \<noteq> None"
  shows "snd (loadUrl t k w) = w"
  using assms by (auto simp: connector_defs)


lemma reads_unchanged:
  assumes "isBeingRefreshed k (cache w)" and "backend (cache w) k \<noteq> None"
  shows "run (map (\<lambda>t. Load t k) rs) w = w"
  using assms by (induction rs) (simp_all add: marked_hit_unchanged)

text \<open>
  C2. From the start of the process and after any sequence of turns, at most one refresh
  of a key is under way (queued or waiting for its request), and \<^verbatim>\<open>_processMap\<close> holds the
  key at most once. When a read finds the key stale and not marked, no refresh of it is
  under way; the read marks the key in its own uninterrupted run and queues one refresh.
  Any number of further reads of the key right after it leave the whole state as it is.
  Through any later turns that do not complete that refresh, the key stays marked and
  exactly that one refresh stays under way, so the reads among those turns have scheduled
  none, and one more read changes nothing.
\<close>

theorem single_flight:
  "outstanding key (run evs init) \<le> 1
   \<and> (BifrostCache_get t0 key (cache (run evs init)) = Some (v, True)
        \<and> \<not> isBeingRefreshed key (cache (run evs init))
        \<and> refreshPending key later (step (Load t0 key) (run evs init))
      \<longrightarrow> outstanding key (run evs init) = 0
        \<and> isBeingRefreshed key (cache (step (Load t0 key) (run evs init)))
        \<and> outstanding key (step (Load t0 key) (run evs init)) = 1
        \<and> run (map (\<lambda>t. Load t key) rs) (step (Load t0 key) (run evs init))
            = step (Load t0 key) (run evs init)
        \<and> isBeingRefreshed key (cache (run later (step (Load t0 key) (run evs init))))
        \<and> outstanding key (run later (step (Load t0 key) (run evs init))) = 1
        \<and> snd (loadUrl t key (run later (step (Load t0 key) (run evs init))))
            = run later (step (Load t0 key) (run evs init)))"
proof (intro conjI impI)
  let ?w = "run evs init"
  let ?w1 = "step (Load t0 key) ?w"
  let ?w2 = "run later ?w1"
  have inv0: "outstanding key ?w \<le> slot key ?w"
    using refresh_bound_init by (rule refresh_bound_run)
  then show "outstanding key ?w \<le> 1"
    by (simp add: slot_def split: if_splits)
  assume hyp: "BifrostCache_get t0 key (cache ?w) = Some (v, True)
        \<and> \<not> isBeingRefreshed key (cache ?w) \<and> refreshPending key later ?w1"
  then have stale: "BifrostCache_get t0 key (cache ?w) = Some (v, True)"
    and idle: "\<not> isBeingRefreshed key (cache ?w)"
    and pend: "refreshPending key later ?w1"
    by simp_all
  show o0: "outstanding key ?w = 0"
    using inv0 idle by (simp add: slot_def)
  have b0: "backend (cache ?w) key \<noteq> None"
    using stale by (auto simp: BifrostCache_get_def split: option.splits)
  show f1: "isBeingRefreshed key (cache ?w1)"
    using stale idle by (auto simp: connector_defs split: option.splits)
  have b1: "backend (cache ?w1) key \<noteq> None"
    using b0 by (rule backend_kept_step)
  have "outstanding key ?w1 = outstanding key ?w + 1"
    using stale idle by (auto simp: connector_defs outstanding_def split: option.splits)
  then show o1: "outstanding key ?w1 = 1"
    using o0 by simp
  show "run (map (\<lambda>t. Load t key) rs) ?w1 = ?w1"
    using f1 b1 by (rule reads_unchanged)
  note p = pending_run[OF pend f1 b1]
  show f2: "isBeingRefreshed key (cache ?w2)"
    using p by simp
  have "outstanding key ?w2 \<le> slot key ?w2"
    using refresh_bound_step[OF inv0] by (rule refresh_bound_run)
  then have "outstanding key ?w2 \<le> 1"
    by (simp add: slot_def split: if_splits)
  then show "outstanding key ?w2 = 1"
    using p o1 by simp
  show "snd (loadUrl t key ?w2) = ?w2"
    using f2 p by (simp add: marked_hit_unchanged)
qed

theorem single_flight_witness:
  "BifrostCache_get (minutes 40) ''A'' (cache cachedA) = Some (response1, True)
   \<and> \<not> isBeingRefreshed ''A'' (cache cachedA)
   \<and> refreshPending ''A'' [Load (minutes 40 + 1) ''A'', Tick, Load (minutes 40 + 2) ''A''] refreshingA
   \<and> outstanding ''A'' cachedA = 0
   \<and> isBeingRefreshed ''A'' (cache refreshingA)
   \<and> outstanding ''A'' refreshingA = 1
   \<and> run [Load (minutes 40 + 1) ''A'', Load (minutes 40 + 2) ''A''] refreshingA = refreshingA
   \<and> outstanding ''A'' (run [Load (minutes 40 + 1) ''A'', Tick, Load (minutes 40 + 2) ''A''] refreshingA) = 1
   \<and> requests (run [Load (minutes 40 + 1) ''A'', Tick, Load (minutes 40 + 2) ''A''] refreshingA)
       = [(''A'', MarkAndRefreshItemAsync)]"
  using single_flight[of "''A''" "[Load 0 ''A'', Settle 0 0 (Inr response1)]" "minutes 40" response1
      "[Load (minutes 40 + 1) ''A'', Tick, Load (minutes 40 + 2) ''A'']"
      "[minutes 40 + 1, minutes 40 + 2]" "minutes 41"]
  by (simp add: refreshingA_eq cachedA_eq connector_defs minutes_def CACHE_LIFETIME_def
      outstanding_def)

subsection \<open>The cache key\<close>

lemmas key_defs = get_url_def qsDefaults_def encode_def qsEscape_def escapeChar_def noEscape_def
  hexDigit_def ROOT_URL_def Let_def

lemma defaults_qsDefaults:
  "defaults obj qsDefaults = obj @ filter (\<lambda>(k, v). map_of obj k = None) qsDefaults"
  by (simp add: qsDefaults_def)

lemma map_of_defaults:
  "map_of (defaults obj qsDefaults) = map_of qsDefaults ++ map_of obj"
  by (rule ext) (auto simp: defaults_qsDefaults qsDefaults_def map_add_def split: option.splits)

text \<open>
  C4, as the claim states it: two parameter objects with the same properties would give
  the same key. \<^verbatim>\<open>querystring.encode\<close> writes the properties in the order the object
  enumerates them, and nothing sorts them: the same two properties in the other order give
  another key.
\<close>

theorem cache_key_order_counterexample:
  "map_of [(''query'', ''LSD''), (''limit'', ''1'')] = map_of [(''limit'', ''1''), (''query'', ''LSD'')]
   \<and> map_option fst (get_url 0 [0 \<mapsto> [(''query'', ''LSD''), (''limit'', ''1'')]])
       = Some ''https://psychonautwiki.org/w/api.php?query=LSD&limit=1&action=ask&format=json''
   \<and> map_option fst (get_url 0 [0 \<mapsto> [(''limit'', ''1''), (''query'', ''LSD'')]])
       = Some ''https://psychonautwiki.org/w/api.php?limit=1&query=LSD&action=ask&format=json''
   \<and> map_option fst (get_url 0 [0 \<mapsto> [(''query'', ''LSD''), (''limit'', ''1'')]])
       \<noteq> map_option fst (get_url 0 [0 \<mapsto> [(''limit'', ''1''), (''query'', ''LSD'')]])"
  by (auto simp: key_defs fun_eq_iff)

text \<open>
  C4, amended. The key is the base url, \<^verbatim>\<open>?\<close>, and the query string of the merged
  object. The merged object has the caller's properties first, in the caller's order and
  with the caller's values, then the defaults \<^verbatim>\<open>action\<close> and \<^verbatim>\<open>format\<close> that the caller has
  not given; as a mapping it is the defaults overridden by the caller's properties. Two
  objects with the same properties in the same order give the same key.
\<close>

theorem cache_key_follows_order:
  assumes "h args = Some obj"
  shows "map_option fst (get_url args h) = Some (ROOT_URL @ ''?'' @ encode (defaults obj qsDefaults))
       \<and> defaults obj qsDefaults = obj @ filter (\<lambda>(k, v). map_of obj k = None) qsDefaults
       \<and> map_of (defaults obj qsDefaults) = map_of qsDefaults ++ map_of obj
       \<and> (h' args' = Some obj \<longrightarrow>
            map_option fst (get_url args' h') = map_option fst (get_url args h))"
  using assms
  by (simp add: get_url_def Let_def defaults_qsDefaults[symmetric] map_of_defaults)

theorem cache_key_follows_order_witness:
  "[0 \<mapsto> [(''query'', ''[[LSD]]''), (''format'', ''xml'')]] (0::nat) = Some [(''query'', ''[[LSD]]''), (''format'', ''xml'')]
   \<and> map_option fst (get_url 0 [0 \<mapsto> [(''query'', ''[[LSD]]''), (''format'', ''xml'')]])
       = Some ''https://psychonautwiki.org/w/api.php?query=%5B%5BLSD%5D%5D&format=xml&action=ask''
   \<and> defaults [(''query'', ''[[LSD]]''), (''format'', ''xml'')] qsDefaults
       = [(''query'', ''[[LSD]]''), (''format'', ''xml''), (''action'', ''ask'')]"
  using cache_key_follows_order[of "[0 \<mapsto> [(''query'', ''[[LSD]]''), (''format'', ''xml'')]]" 0
      "[(''query'', ''[[LSD]]''), (''format'', ''xml'')]"
      "[0 \<mapsto> [(''query'', ''[[LSD]]''), (''format'', ''xml'')]]" 0]
  by (simp add: key_defs)

text \<open>
  C10. \<^verbatim>\<open>get\<close> writes into the object of its caller: after the call the object behind
  \<^verbatim>\<open>args\<close> is the merged one, every other object of the store is untouched. The merged
  object has \<^verbatim>\<open>action\<close> and \<^verbatim>\<open>format\<close>, with the default values where the caller had none,
  and keeps every property the caller gave.
\<close>

theorem get_writes_defaults_into_args:
  assumes "h args = Some obj"
  shows "map_option snd (get_url args h) = Some (h(args \<mapsto> defaults obj qsDefaults))
       \<and> (map_of obj ''action'' = None \<longrightarrow> map_of (defaults obj qsDefaults) ''action'' = Some ''ask'')
       \<and> (map_of obj ''format'' = None \<longrightarrow> map_of (defaults obj qsDefaults) ''format'' = Some ''json'')
       \<and> (map_of obj k = Some v \<longrightarrow> map_of (defaults obj qsDefaults) k = Some v)
       \<and> map_of (defaults obj qsDefaults) ''action'' \<noteq> None
       \<and> map_of (defaults obj qsDefaults) ''format'' \<noteq> None"
  using assms
  by (auto simp: get_url_def Let_def map_of_defaults map_add_def qsDefaults_def split: option.splits)

theorem get_writes_defaults_into_args_witness:
  "[7 \<mapsto> [(''query'', ''LSD'')]] (7::nat) = Some [(''query'', ''LSD'')]
   \<and> map_of [(''query'', ''LSD'')] ''action'' = None
   \<and> map_of [(''query'', ''LSD'')] ''format'' = None
   \<and> map_of [(''query'', ''LSD'')] ''query'' = Some ''LSD''
   \<and> map_option snd (get_url 7 [7 \<mapsto> [(''query'', ''LSD'')]])
       = Some [7 \<mapsto> [(''query'', ''LSD''), (''action'', ''ask''), (''format'', ''json'')]]"
  using get_writes_defaults_into_args[of "[7 \<mapsto> [(''query'', ''LSD'')]]" 7 "[(''query'', ''LSD'')]"
      "''query''" "''LSD''"]
  by (simp add: key_defs)

subsection \<open>The loader\<close>

lemma loaderA_eq:
  "loaderA = \<lparr>promiseCache = [''A'' \<mapsto> 0], queue = [], promises = [Some (Inr ''{x:1}'')]\<rparr>"
  by (simp add: loaderA_def dispatchQueue_def load_def newLoader_def init_def newBifrostCache_def
      connector_defs response1_def)

lemma promiseCache_resolveBatch:
  "promiseCache (resolveBatch batch vs l) = promiseCache l"
  by (induction batch vs l rule: resolveBatch.induct) simp_all

lemma dispatch_empty:
  "queue l = [] \<Longrightarrow> dispatchQueue now l w = ([], [], l, w)"
  by (cases l) (simp add: dispatchQueue_def)

text \<open>\<^verbatim>\<open>fetch\<close> runs \<^verbatim>\<open>_loadUrl\<close> for every url, in order, each in the state the one before left.\<close>

lemma fetch_Cons:
  "fetch now (url # urls) w =
     (fst (loadUrl now url w) # fst (fetch now urls (snd (loadUrl now url w))),
      snd (fetch now urls (snd (loadUrl now url w))))"
  by (simp split: prod.splits)

lemmas fetch_eqs = fetch.simps(1) fetch_Cons

lemma fetch_snd: "snd (fetch now urls w) = run (map (Load now) urls) w"
  by (induction urls arbitrary: w) (simp_all only: fetch_eqs snd_conv list.map run.simps step.simps)

lemma fetch_length: "length (fst (fetch now urls w)) = length urls"
  by (induction urls arbitrary: w) (simp_all only: fetch_eqs fst_conv list.size)

lemma fetch_append:
  "fetch now (us @ vs) w =
     (fst (fetch now us w) @ fst (fetch now vs (snd (fetch now us w))),
      snd (fetch now vs (snd (fetch now us w))))"
  by (induction us arbitrary: w)
    (simp_all only: fetch_eqs append.simps fst_conv snd_conv prod.collapse)

lemma fetch_nth:
  assumes "j < length urls"
  shows "fst (fetch now urls w) ! j = fst (loadUrl now (urls ! j) (snd (fetch now (take j urls) w)))"
proof -
  have "urls = take j urls @ urls ! j # drop (Suc j) urls"
    using assms by (rule id_take_nth_drop)
  then have "fetch now urls w = fetch now (take j urls @ urls ! j # drop (Suc j) urls) w"
    by simp
  moreover have "length (fst (fetch now (take j urls) w)) = j"
    using assms by (simp add: fetch_length)
  ultimately show ?thesis
    by (simp add: fetch_append fetch_Cons nth_append del: fetch.simps)
qed











text \<open>\<^verbatim>\<open>load\<close>, and what it keeps true of the queue.\<close>

lemma load_memo: "promiseCache l key = Some p \<Longrightarrow> load key l = (p, l)"
  by (simp add: load_def)

lemma load_new:
  "promiseCache l key = None \<Longrightarrow>
   load key l = (length (promises l),
                 l\<lparr>promiseCache := (promiseCache l)(key \<mapsto> length (promises l)),
                   queue := queue l @ [(key, length (promises l))],
                   promises := promises l @ [None]\<rparr>)"
  by (simp add: load_def Let_def)








lemma dispatchQueue_eq:
  "dispatchQueue now l w =
     (queue l, fst (fetch now (map fst (queue l)) w), l\<lparr>queue := []\<rparr>,
      snd (fetch now (map fst (queue l)) w))"
  by (simp add: dispatchQueue_def Let_def split: prod.splits)





lemma promises_length_resolveBatch:
  "length (promises (resolveBatch batch vs l)) = length (promises l)"
  by (induction batch vs l rule: resolveBatch.induct) simp_all



lemma promises_length_failedDispatch:
  "length (promises (failedDispatch batch err l)) = length (promises l)"
  by (induction batch err l rule: failedDispatch.induct) simp_all



lemma promiseCache_failedDispatch:
  "promiseCache (failedDispatch batch err l) key =
     (if key \<in> fst ` set batch then None else promiseCache l key)"
  by (induction batch err l rule: failedDispatch.induct) auto






lemma loaderB_eq:
  "snd (load ''B'' (newLoader :: string loader)) =
     \<lparr>promiseCache = [''B'' \<mapsto> 0], queue = [(''B'', 0)], promises = [None]\<rparr>"
  by (simp add: load_def newLoader_def)

lemma get_LSD: "get_url 0 askLSD = Some (urlLSD, mergedLSD)"
  by (simp add: key_defs askLSD_def urlLSD_def mergedLSD_def)



text \<open>
  C3, as the claim states it: a \<^verbatim>\<open>get\<close> issued after an earlier \<^verbatim>\<open>get\<close> for the same key has
  resolved would look the key up in the cache again. On the connector of the scenario the
  promise of the first \<^verbatim>\<open>get\<close> for \<^verbatim>\<open>A\<close> has resolved with \<^verbatim>\<open>{x:1}\<close>. At minute 40 a \<^verbatim>\<open>load\<close> of
  \<^verbatim>\<open>A\<close> on that connector returns that same promise and queues nothing, and the dispatch
  has nothing to call: state and loader stay as they are. A lookup at that time would
  have found the entry stale and marked it.
\<close>

theorem get_after_resolution_counterexample:
  "promises loaderA ! 0 = Some (Inr ''{x:1}'')
   \<and> load ''A'' loaderA = (0, loaderA)
   \<and> dispatchQueue (minutes 40) loaderA cachedA = ([], [], loaderA, cachedA)
   \<and> loadUrl (minutes 40) ''A'' cachedA = (Returned ''{x:1}'', refreshingA)
   \<and> refreshingA \<noteq> cachedA"
proof -
  have "nextTickQueue refreshingA \<noteq> nextTickQueue cachedA"
    by (simp add: refreshingA_eq cachedA_eq)
  then have "refreshingA \<noteq> cachedA" by auto
  moreover have "loadUrl (minutes 40) ''A'' cachedA = (Returned ''{x:1}'', refreshingA)"
    by (simp add: refreshingA_eq cachedA_eq connector_defs minutes_def CACHE_LIFETIME_def
        response1_def)
  moreover have "dispatchQueue (minutes 40) loaderA cachedA = ([], [], loaderA, cachedA)"
    by (simp add: dispatch_empty loaderA_eq)
  ultimately show ?thesis
    by (simp add: loaderA_eq load_def)
qed

text \<open>
  C3, amended. On one connector, a \<^verbatim>\<open>get\<close> for a key whose promise the loader has cached
  (an earlier \<^verbatim>\<open>get\<close> for it on this connector is pending or has resolved) receives that
  promise and leaves the loader as it is: nothing is queued, and a dispatch of an empty
  queue calls nothing. A \<^verbatim>\<open>get\<close> for a key the loader has not cached receives a new promise
  and queues the key behind the keys already queued. The dispatch takes the whole queue
  and calls \<^verbatim>\<open>_loadUrl\<close> once for every queued key, in order, each call in the state the
  calls before it left; that call looks the key up in the cache. Resolving a batch keeps
  the cached promises; a failed batch clears exactly its keys, so the next \<^verbatim>\<open>get\<close> for one
  of them is dispatched again.
\<close>

theorem get_memoized_by_loader:
  assumes "get_url args h = Some (key, h1)"
  shows "(promiseCache l key = Some p \<longrightarrow> PwConnector_get args h l = Some (p, h1, l))
       \<and> (promiseCache l key = None \<longrightarrow>
            PwConnector_get args h l =
              Some (length (promises l), h1,
                    l\<lparr>promiseCache := (promiseCache l)(key \<mapsto> length (promises l)),
                      queue := queue l @ [(key, length (promises l))],
                      promises := promises l @ [None]\<rparr>))
       \<and> (queue l = [] \<longrightarrow> dispatchQueue now l w = ([], [], l, w))
       \<and> (promiseCache l key = None \<longrightarrow>
            dispatchQueue now (snd (load key l)) w =
              (queue l @ [(key, length (promises l))],
               fst (fetch now (map fst (queue l)) w)
                 @ [fst (loadUrl now key (snd (fetch now (map fst (queue l)) w)))],
               (snd (load key l))\<lparr>queue := []\<rparr>,
               snd (loadUrl now key (snd (fetch now (map fst (queue l)) w)))))
       \<and> fst (dispatchQueue now l w) = queue l
       \<and> length (fst (snd (dispatchQueue now l w))) = length (queue l)
       \<and> (j < length (queue l) \<longrightarrow>
            fst (snd (dispatchQueue now l w)) ! j =
              fst (loadUrl now (fst (queue l ! j)) (run (map (Load now) (take j (map fst (queue l)))) w)))
       \<and> snd (snd (snd (dispatchQueue now l w))) = run (map (Load now) (map fst (queue l))) w
       \<and> promiseCache (resolveBatch batch vs l) = promiseCache l
       \<and> promiseCache (failedDispatch batch err l) k =
           (if k \<in> fst ` set batch then None else promiseCache l k)"
proof -
  have a: "promiseCache l key = Some p \<longrightarrow> PwConnector_get args h l = Some (p, h1, l)"
    using assms by (simp add: PwConnector_get_def load_memo)
  have b: "promiseCache l key = None \<longrightarrow>
            PwConnector_get args h l =
              Some (length (promises l), h1,
                    l\<lparr>promiseCache := (promiseCache l)(key \<mapsto> length (promises l)),
                      queue := queue l @ [(key, length (promises l))],
                      promises := promises l @ [None]\<rparr>)"
    using assms by (simp add: PwConnector_get_def load_new)
  have c: "queue l = [] \<longrightarrow> dispatchQueue now l w = ([], [], l, w)"
    by (simp add: dispatch_empty)
  have d: "promiseCache l key = None \<longrightarrow>
            dispatchQueue now (snd (load key l)) w =
              (queue l @ [(key, length (promises l))],
               fst (fetch now (map fst (queue l)) w)
                 @ [fst (loadUrl now key (snd (fetch now (map fst (queue l)) w)))],
               (snd (load key l))\<lparr>queue := []\<rparr>,
               snd (loadUrl now key (snd (fetch now (map fst (queue l)) w))))"
    by (simp add: dispatchQueue_eq load_new fetch_append fetch_Cons del: fetch.simps(2))
  have e: "fst (dispatchQueue now l w) = queue l"
    and f: "length (fst (snd (dispatchQueue now l w))) = length (queue l)"
    and g: "snd (snd (snd (dispatchQueue now l w))) = run (map (Load now) (map fst (queue l))) w"
    by (simp_all add: dispatchQueue_eq fetch_length fetch_snd)
  have i: "j < length (queue l) \<longrightarrow>
            fst (snd (dispatchQueue now l w)) ! j =
              fst (loadUrl now (fst (queue l ! j)) (run (map (Load now) (take j (map fst (queue l)))) w))"
    using fetch_nth[of j "map fst (queue l)" now w]
    by (simp add: dispatchQueue_eq fetch_snd)
  show ?thesis
    using a b c d e f g i promiseCache_resolveBatch[of batch vs l]
      promiseCache_failedDispatch[of batch err l k]
    by blast
qed

theorem get_memoized_by_loader_witness:
  "get_url 0 askLSD = Some (urlLSD, mergedLSD)
   \<and> promiseCache (newLoader :: string loader) urlLSD = None
   \<and> queue (newLoader :: string loader) = []
   \<and> PwConnector_get 0 askLSD (newLoader :: string loader)
       = Some (0, mergedLSD,
               \<lparr>promiseCache = [urlLSD \<mapsto> 0], queue = [(urlLSD, 0)], promises = [None]\<rparr>)
   \<and> dispatchQueue 0 (snd (load urlLSD (newLoader :: string loader))) init
       = ([(urlLSD, 0)], [Suspended],
          \<lparr>promiseCache = [urlLSD \<mapsto> 0], queue = [], promises = [None]\<rparr>,
          init\<lparr>requests := [(urlLSD, LoadUrl)]\<rparr>)
   \<and> promiseCache (\<lparr>promiseCache = [urlLSD \<mapsto> 0], queue = [], promises = [None]\<rparr> :: string loader)
        urlLSD = Some 0
   \<and> PwConnector_get 0 askLSD
        (\<lparr>promiseCache = [urlLSD \<mapsto> 0], queue = [], promises = [None]\<rparr> :: string loader)
       = Some (0, mergedLSD,
               \<lparr>promiseCache = [urlLSD \<mapsto> 0], queue = [], promises = [None]\<rparr>)
   \<and> promiseCache (snd (load ''B'' (newLoader :: string loader))) urlLSD = None
   \<and> dispatchQueue 0 (snd (load urlLSD (snd (load ''B'' (newLoader :: string loader))))) init
       = ([(''B'', 0), (urlLSD, 1)], [Suspended, Suspended],
          \<lparr>promiseCache = [''B'' \<mapsto> 0, urlLSD \<mapsto> 1], queue = [], promises = [None, None]\<rparr>,
          init\<lparr>requests := [(''B'', LoadUrl), (urlLSD, LoadUrl)]\<rparr>)
   \<and> promiseCache (failedDispatch [(''B'', 0), (urlLSD, 1)] (StatusCodeError 503)
        (\<lparr>promiseCache = [''B'' \<mapsto> 0, urlLSD \<mapsto> 1], queue = [], promises = [None, None]\<rparr>
           :: string loader)) urlLSD = None"
proof -
  note fresh = get_memoized_by_loader[OF get_LSD, where l = "newLoader :: string loader" and p = 0
      and now = 0 and w = init and j = 0 and batch = "[]" and vs = "[]"
      and err = "RequestError []" and k = urlLSD]
  note memo = get_memoized_by_loader[OF get_LSD,
      where l = "\<lparr>promiseCache = [urlLSD \<mapsto> 0], queue = [], promises = [None]\<rparr> :: string loader"
      and p = 0 and now = 0 and w = init and j = 0 and batch = "[]" and vs = "[]"
      and err = "RequestError []" and k = urlLSD]
  note second = get_memoized_by_loader[OF get_LSD,
      where l = "snd (load ''B'' (newLoader :: string loader))" and p = 0
      and now = 0 and w = init and j = 0 and batch = "[]" and vs = "[]"
      and err = "RequestError []" and k = urlLSD]
  note failed = get_memoized_by_loader[OF get_LSD,
      where l = "\<lparr>promiseCache = [''B'' \<mapsto> 0, urlLSD \<mapsto> 1], queue = [], promises = [None, None]\<rparr>
           :: string loader" and p = 0
      and now = 0 and w = init and j = 0 and batch = "[(''B'', 0), (urlLSD, 1)]" and vs = "[]"
      and err = "StatusCodeError 503" and k = urlLSD]
  have nb: "urlLSD \<noteq> ''B''" by (simp add: urlLSD_def)
  show ?thesis
    using get_LSD fresh memo second failed nb
    by (simp add: newLoader_def load_def init_def newBifrostCache_def connector_defs
        fetch_Cons del: fetch.simps(2))
qed


subsection \<open>A read through \<^verbatim>\<open>get\<close>\<close>






































end
